theory Spec2Isabelle
  imports Complex_Main
begin

section \<open>Annotation model\<close>

text \<open>
  The two mark kinds of \<^verbatim>\<open>src/index.ts\<close> are identified by the name of their mark type.
  A mark carries the three attributes the extension declares; \<^verbatim>\<open>data-op-date\<close> is
  \<open>None\<close> for the default (empty) value.
\<close>

definition MARK_DELETION :: string where
  "MARK_DELETION = ''deletion''"

definition MARK_INSERTION :: string where
  "MARK_INSERTION = ''insertion''"

datatype TRACK_COMMAND_TYPE =
    TRACK_COMMAND_ACCEPT
  | TRACK_COMMAND_ACCEPT_ALL
  | TRACK_COMMAND_REJECT
  | TRACK_COMMAND_REJECT_ALL

record mark =
  mark_name :: string
  data_op_user_id :: string
  data_op_user_nickname :: string
  data_op_date :: "int option"

text \<open>\<^verbatim>\<open>markType.create()\<close>: a mark with the default attributes.\<close>

definition create_default :: "string \<Rightarrow> mark" where
  "create_default name =
     \<lparr>mark_name = name, data_op_user_id = [], data_op_user_nickname = [], data_op_date = None\<rparr>"

text \<open>\<^verbatim>\<open>marks.find(m => m.type.name === name)\<close>, read as a truth value.\<close>

definition has_mark :: "string \<Rightarrow> mark list \<Rightarrow> bool" where
  "has_mark name ms = (name \<in> set (map mark_name ms))"

section \<open>Minute timestamps\<close>

text \<open>
  \<^verbatim>\<open>Math.round(x)\<close> is the integer nearest to \<open>x\<close>, a half rounding towards plus
  infinity. The clock \<^verbatim>\<open>new Date().getTime()\<close> is an integer number of milliseconds,
  passed in as \<open>now\<close>; the quotient by 60000 of such an integer is far enough from a
  half-integer boundary (at least 1/60000) that the double-precision division of the
  source and the exact division used here round alike.
\<close>

definition Math_round :: "real \<Rightarrow> int" where
  "Math_round x = \<lfloor>x + 1 / 2\<rfloor>"

definition getMinuteTime :: "int \<Rightarrow> int" where
  "getMinuteTime now = Math_round (real_of_int now / 1000 / 60) * 1000 * 60"

section \<open>Session state and the status commands\<close>

text \<open>
  \<^verbatim>\<open>TrackChangeStorage\<close>. The optional callback \<^verbatim>\<open>onStatusChange\<close> is modelled by
  whether it is configured; every invocation of it is recorded, oldest first, with the
  argument it received.
\<close>

record TrackChangeStorage =
  enabled :: bool
  dataOpUserId :: string
  dataOpUserNickname :: string
  onStatusChange :: bool
  status_calls :: "bool list"

record RedlinesOptions =
  opt_enabled :: "bool option"
  opt_onStatusChange :: bool
  opt_dataOpUserId :: "string option"
  opt_dataOpUserNickname :: "string option"

definition addOptions :: RedlinesOptions where
  "addOptions =
     \<lparr>opt_enabled = Some False, opt_onStatusChange = False,
      opt_dataOpUserId = Some [], opt_dataOpUserNickname = Some []\<rparr>"

definition addStorage :: "RedlinesOptions \<Rightarrow> TrackChangeStorage" where
  "addStorage options =
     \<lparr>enabled = (case opt_enabled options of None \<Rightarrow> False | Some b \<Rightarrow> b),
      dataOpUserId = (case opt_dataOpUserId options of None \<Rightarrow> [] | Some s \<Rightarrow> s),
      dataOpUserNickname = (case opt_dataOpUserNickname options of None \<Rightarrow> [] | Some s \<Rightarrow> s),
      onStatusChange = opt_onStatusChange options,
      status_calls = []\<rparr>"

definition call_onStatusChange :: "bool \<Rightarrow> TrackChangeStorage \<Rightarrow> TrackChangeStorage" where
  "call_onStatusChange b st = st\<lparr>status_calls := status_calls st @ [b]\<rparr>"

definition onCreate :: "TrackChangeStorage \<Rightarrow> TrackChangeStorage" where
  "onCreate st = (if onStatusChange st then call_onStatusChange (enabled st) st else st)"

definition setTrackChangeStatus :: "bool \<Rightarrow> TrackChangeStorage \<Rightarrow> TrackChangeStorage" where
  "setTrackChangeStatus b st =
     (let st1 = st\<lparr>enabled := b\<rparr>
      in if onStatusChange st1 then call_onStatusChange b st1 else st1)"

definition toggleTrackChangeStatus :: "TrackChangeStorage \<Rightarrow> TrackChangeStorage" where
  "toggleTrackChangeStatus st =
     (let st1 = st\<lparr>enabled := \<not> enabled st\<rparr>
      in if onStatusChange st1 then call_onStatusChange (enabled st1) st1 else st1)"

definition getTrackChangeStatus :: "TrackChangeStorage \<Rightarrow> bool" where
  "getTrackChangeStatus st = enabled st"

definition updateOpUserOption :: "string \<Rightarrow> string \<Rightarrow> TrackChangeStorage \<Rightarrow> TrackChangeStorage" where
  "updateOpUserOption opUserId opUserNickname st =
     st\<lparr>dataOpUserId := opUserId, dataOpUserNickname := opUserNickname\<rparr>"

section \<open>Documents\<close>

text \<open>
  The document tree is the host's (ProseMirror's); the extension reads it through
  \<^verbatim>\<open>node.marks\<close>, \<^verbatim>\<open>node.nodeSize\<close>, \<^verbatim>\<open>node.content\<close> and \<^verbatim>\<open>fragment.forEach\<close>.
  A node is a text node (its size is the length of its text), a leaf node (size 1), or a
  node with content (size 2 plus the size of its content: one position for its opening
  and one for its closing boundary). \<open>Leaf\<close> stands for inline leaves such as images and
  hard breaks.
\<close>

datatype node =
    Text string "mark list"
  | Leaf string "mark list"
  | Elem string "mark list" "node list"

fun node_marks :: "node \<Rightarrow> mark list" where
  "node_marks (Text s ms) = ms"
| "node_marks (Leaf ty ms) = ms"
| "node_marks (Elem ty ms ns) = ms"

fun node_content :: "node \<Rightarrow> node list" where
  "node_content (Text s ms) = []"
| "node_content (Leaf ty ms) = []"
| "node_content (Elem ty ms ns) = ns"

fun nodeSize :: "node \<Rightarrow> int" and fragment_size :: "node list \<Rightarrow> int" where
  "nodeSize (Text s ms) = int (length s)"
| "nodeSize (Leaf ty ms) = 1"
| "nodeSize (Elem ty ms ns) = 2 + fragment_size ns"
| "fragment_size [] = 0"
| "fragment_size (n # ns) = nodeSize n + fragment_size ns"

text \<open>
  \<^verbatim>\<open>Slice\<close>: a fragment whose first \<open>openStart\<close> opening and last \<open>openEnd\<close> closing
  boundaries are not part of it. \<^verbatim>\<open>slice.size\<close> does not count them.
\<close>

record slice =
  content :: "node list"
  openStart :: int
  openEnd :: int

definition slice_size :: "slice \<Rightarrow> int" where
  "slice_size sl = fragment_size (content sl) - openStart sl - openEnd sl"

definition Slice_empty :: slice where
  "Slice_empty = \<lparr>content = [], openStart = 0, openEnd = 0\<rparr>"

text \<open>
  Steps. Only \<^verbatim>\<open>ReplaceStep(from, to, slice, structure)\<close> is inspected by the extension
  (\<^verbatim>\<open>step instanceof ReplaceStep\<close>); mark steps and the steps of any other class are
  told apart from it and otherwise left alone.
\<close>

datatype step =
    ReplaceStep int int slice bool
  | AddMarkStep int int mark
  | RemoveMarkStep int int string
  | OtherStep string

subsection \<open>Positions: the document as a sequence of tokens\<close>

text \<open>
  The host addresses a document by integer positions that count tokens: one per
  character of text, one per leaf node, and one each for the opening and the closing
  boundary of a node with content. Position \<open>n\<close> is the gap before the \<open>n\<close>-th token
  of the document node's content. Documents are kept in this form: it is canonical
  (two documents are equal exactly when their token sequences are), and replacing a
  range is a splice of the sequence.
\<close>

datatype token =
    TChar char "mark list"
  | TLeaf string "mark list"
  | TOpen string "mark list"
  | TClose

type_synonym doc = "token list"

fun node_tokens :: "node \<Rightarrow> token list" and fragment_tokens :: "node list \<Rightarrow> token list" where
  "node_tokens (Text s ms) = map (\<lambda>c. TChar c ms) s"
| "node_tokens (Leaf ty ms) = [TLeaf ty ms]"
| "node_tokens (Elem ty ms ns) = TOpen ty ms # fragment_tokens ns @ [TClose]"
| "fragment_tokens [] = []"
| "fragment_tokens (n # ns) = node_tokens n @ fragment_tokens ns"

definition slice_tokens :: "slice \<Rightarrow> token list" where
  "slice_tokens sl =
     take (nat (slice_size sl)) (drop (nat (openStart sl)) (fragment_tokens (content sl)))"

text \<open>
  Reading a token sequence back as a fragment. Adjacent characters with the same marks
  form one text node, as the host keeps them. The accumulator holds the nodes read so
  far at the current depth, last first; the stack holds the enclosing open nodes.
\<close>

fun add_char :: "char \<Rightarrow> mark list \<Rightarrow> node list \<Rightarrow> node list" where
  "add_char c ms (Text s ms' # acc) =
     (if ms = ms' then Text (s @ [c]) ms' # acc else Text [c] ms # Text s ms' # acc)"
| "add_char c ms acc = Text [c] ms # acc"

fun parse :: "token list \<Rightarrow> (string \<times> mark list \<times> node list) list \<Rightarrow> node list \<Rightarrow> node list option" where
  "parse [] [] acc = Some (rev acc)"
| "parse [] (fr # st) acc = None"
| "parse (TChar c ms # ts) st acc = parse ts st (add_char c ms acc)"
| "parse (TLeaf ty ms # ts) st acc = parse ts st (Leaf ty ms # acc)"
| "parse (TOpen ty ms # ts) st acc = parse ts ((ty, ms, acc) # st) []"
| "parse (TClose # ts) [] acc = None"
| "parse (TClose # ts) ((ty, ms, acc') # st) acc = parse ts st (Elem ty ms (rev acc) # acc')"

text \<open>The nodes open at the end of a prefix of the document, innermost first.\<close>

fun open_nodes :: "token list \<Rightarrow> (string \<times> mark list) list \<Rightarrow> (string \<times> mark list) list" where
  "open_nodes [] st = st"
| "open_nodes (TOpen ty ms # ts) st = open_nodes ts ((ty, ms) # st)"
| "open_nodes (TClose # ts) st = open_nodes ts (tl st)"
| "open_nodes (TChar c ms # ts) st = open_nodes ts st"
| "open_nodes (TLeaf ty ms # ts) st = open_nodes ts st"

text \<open>\<^verbatim>\<open>doc.resolve(pos).depth\<close>.\<close>

definition depth_at :: "doc \<Rightarrow> int \<Rightarrow> int" where
  "depth_at d p = int (length (open_nodes (take (nat p) d) []))"

text \<open>
  The closing boundaries of a range that close a node opened before it, and the opening
  boundaries whose node closes after it.
\<close>

fun unmatched :: "token list \<Rightarrow> nat \<times> nat \<Rightarrow> nat \<times> nat" where
  "unmatched [] ck = ck"
| "unmatched (TOpen ty ms # ts) (c, k) = unmatched ts (c, Suc k)"
| "unmatched (TClose # ts) (c, k) =
     (if k = 0 then unmatched ts (Suc c, 0) else unmatched ts (c, k - 1))"
| "unmatched (TChar ch ms # ts) ck = unmatched ts ck"
| "unmatched (TLeaf ty ms # ts) ck = unmatched ts ck"

datatype error = RangeError | TransformError | TypeError

text \<open>
  \<^verbatim>\<open>doc.slice(from, to)\<close>: the content between two positions, as a fragment at the
  depth of the deepest node that contains both, the nodes cut at either end being
  completed and counted in \<open>openStart\<close> and \<open>openEnd\<close>. A position outside the
  document raises \<^verbatim>\<open>RangeError\<close> in the host. The steps of a transaction have
  \<open>from \<le> to\<close>; the host's result for the opposite order is not modelled and reported
  as an error too.
\<close>

definition doc_slice :: "doc \<Rightarrow> int \<Rightarrow> int \<Rightarrow> error + slice" where
  "doc_slice d f t =
     (if f = t then Inr Slice_empty
      else if f < 0 \<or> t < f \<or> int (length d) < t then Inl RangeError
      else
        (let r = take (nat (t - f)) (drop (nat f) d);
             ck = unmatched r (0, 0);
             anc = open_nodes (take (nat f) d) [];
             padded = map (\<lambda>(ty, ms). TOpen ty ms) (rev (take (fst ck) anc)) @ r
                      @ replicate (snd ck) TClose
         in case parse padded [] [] of
              None \<Rightarrow> Inl RangeError
            | Some ns \<Rightarrow> Inr \<lparr>content = ns, openStart = int (fst ck), openEnd = int (snd ck)\<rparr>))"

text \<open>
  \<^verbatim>\<open>doc.replace(from, to, slice)\<close> as a splice, with the two checks of the host's
  \<^verbatim>\<open>replace\<close> that depend on positions alone: the slice is not open deeper than the
  insertion point, and the depths left open on both sides agree. (The host also checks
  the result against the schema; no schema is modelled.)
\<close>

definition replace_tokens :: "doc \<Rightarrow> int \<Rightarrow> int \<Rightarrow> slice \<Rightarrow> error + doc" where
  "replace_tokens d f t sl =
     (if f < 0 \<or> t < f \<or> int (length d) < t then Inl RangeError
      else if depth_at d f < openStart sl then Inl TransformError
      else if depth_at d f - openStart sl = depth_at d t - openEnd sl
        then Inr (take (nat f) d @ slice_tokens sl @ drop (nat t) d)
        else Inl TransformError)"

fun is_open :: "token \<Rightarrow> bool" where
  "is_open (TOpen ty ms) = True"
| "is_open tok = False"

fun is_close :: "token \<Rightarrow> bool" where
  "is_close TClose = True"
| "is_close tok = False"

text \<open>
  \<^verbatim>\<open>contentBetween(doc, from, to)\<close> of a structure step: the range holds something other
  than closing boundaries followed by opening boundaries.
\<close>

definition contentBetween :: "doc \<Rightarrow> int \<Rightarrow> int \<Rightarrow> bool" where
  "contentBetween d f t =
     (dropWhile is_open (dropWhile is_close (take (nat (t - f)) (drop (nat f) d))) \<noteq> [])"

text \<open>
  Marks. \<^verbatim>\<open>mark.addToSet\<close> replaces a mark of the same type (a mark type excludes
  itself) and keeps the others; the order of a mark set, which the host derives from
  the schema, is taken to be the order of arrival. \<^verbatim>\<open>tr.addMark\<close> and
  \<^verbatim>\<open>tr.removeMark\<close> change the inline nodes of the range, here its characters and
  leaves.
\<close>

definition addToSet :: "mark \<Rightarrow> mark list \<Rightarrow> mark list" where
  "addToSet m ms =
     (if m \<in> set ms then ms else filter (\<lambda>x. mark_name x \<noteq> mark_name m) ms @ [m])"

definition removeFromSet :: "string \<Rightarrow> mark list \<Rightarrow> mark list" where
  "removeFromSet name ms = filter (\<lambda>x. mark_name x \<noteq> name) ms"

fun token_marks :: "token \<Rightarrow> mark list" where
  "token_marks (TChar c ms) = ms"
| "token_marks (TLeaf ty ms) = ms"
| "token_marks (TOpen ty ms) = []"
| "token_marks TClose = []"

fun map_token_marks :: "(mark list \<Rightarrow> mark list) \<Rightarrow> token \<Rightarrow> token" where
  "map_token_marks g (TChar c ms) = TChar c (g ms)"
| "map_token_marks g (TLeaf ty ms) = TLeaf ty (g ms)"
| "map_token_marks g (TOpen ty ms) = TOpen ty ms"
| "map_token_marks g TClose = TClose"

fun mark_from :: "(mark list \<Rightarrow> mark list) \<Rightarrow> int \<Rightarrow> int \<Rightarrow> int \<Rightarrow> doc \<Rightarrow> doc" where
  "mark_from g f t p [] = []"
| "mark_from g f t p (tok # d) =
     (if f \<le> p \<and> p < t then map_token_marks g tok else tok) # mark_from g f t (p + 1) d"

definition mark_range :: "(mark list \<Rightarrow> mark list) \<Rightarrow> int \<Rightarrow> int \<Rightarrow> doc \<Rightarrow> doc" where
  "mark_range g f t d = mark_from g f t 0 d"

fun step_apply :: "step \<Rightarrow> doc \<Rightarrow> error + doc" where
  "step_apply (ReplaceStep f t sl structure) d =
     (if structure \<and> contentBetween d f t then Inl TransformError
      else replace_tokens d f t sl)"
| "step_apply (AddMarkStep f t m) d = Inr (mark_range (addToSet m) f t d)"
| "step_apply (RemoveMarkStep f t name) d = Inr (mark_range (removeFromSet name) f t d)"
| "step_apply (OtherStep cls) d = Inl TransformError"

text \<open>
  \<^verbatim>\<open>step.invert(doc)\<close> of a replace step: the step that puts back what the range held
  in \<open>doc\<close>, the document before the step.
\<close>

definition invert :: "int \<Rightarrow> int \<Rightarrow> slice \<Rightarrow> doc \<Rightarrow> error + (int \<times> int \<times> slice \<times> bool)" where
  "invert f t sl d =
     (case doc_slice d f t of
        Inl e \<Rightarrow> Inl e
      | Inr removed \<Rightarrow> Inr (f, f + slice_size sl, removed, False))"

section \<open>Transactions and the editor\<close>

text \<open>
  A transaction (the host's \<^verbatim>\<open>Transform\<close>/\<^verbatim>\<open>Transaction\<close>): the current document, the
  steps applied so far, the document before each of them (\<^verbatim>\<open>docs[i]\<close> is the document
  before step \<open>i\<close>), the metadata, and the selection. A metadata value is a boolean, the
  binding of the collaboration plugin with its \<^verbatim>\<open>isChangeOrigin\<close> flag, or some other
  object.
\<close>

datatype meta = MetaBool bool | MetaSync bool | MetaObject

record transaction =
  tr_doc :: doc
  tr_steps :: "step list"
  tr_docs :: "doc list"
  tr_meta :: "(string \<times> meta) list"
  tr_selection :: "int \<times> int"

definition docChanged :: "transaction \<Rightarrow> bool" where
  "docChanged tr = (tr_steps tr \<noteq> [])"

definition tr_before :: "transaction \<Rightarrow> doc" where
  "tr_before tr = (case tr_docs tr of [] \<Rightarrow> tr_doc tr | d # ds \<Rightarrow> d)"

definition getMeta :: "transaction \<Rightarrow> string \<Rightarrow> meta option" where
  "getMeta tr key = map_of (tr_meta tr) key"

text \<open>The truth value of \<^verbatim>\<open>transaction.getMeta(key)\<close> in a condition.\<close>

fun truthy :: "meta option \<Rightarrow> bool" where
  "truthy None = False"
| "truthy (Some (MetaBool b)) = b"
| "truthy (Some (MetaSync b)) = True"
| "truthy (Some MetaObject) = True"

text \<open>\<^verbatim>\<open>syncMeta && syncMeta.isChangeOrigin\<close>.\<close>

fun isChangeOrigin :: "meta option \<Rightarrow> bool" where
  "isChangeOrigin (Some (MetaSync b)) = b"
| "isChangeOrigin m = False"

text \<open>
  The calls the extension makes on a transaction. The source computes the arguments of
  every call from the incoming transaction and its own counters, never from the result
  of an earlier call, so a run of the source is the list of its calls, executed in
  order until one of them throws.
\<close>

datatype tr_call =
    AddMark int int mark
  | RemoveMark int int string
  | DeleteRange int int
  | TrStep step
  | SetMeta string meta
  | SetSelection int

definition record_step :: "step \<Rightarrow> doc \<Rightarrow> transaction \<Rightarrow> transaction" where
  "record_step s d' tr =
     tr\<lparr>tr_doc := d', tr_steps := tr_steps tr @ [s], tr_docs := tr_docs tr @ [tr_doc tr]\<rparr>"

text \<open>
  \<^verbatim>\<open>tr.addMark\<close> and \<^verbatim>\<open>tr.removeMark\<close> add steps only where a node changes (one
  step stands for them here); \<^verbatim>\<open>tr.deleteRange\<close> on the range of a text node is
  \<^verbatim>\<open>tr.delete\<close>, which adds no step for an empty range; \<^verbatim>\<open>tr.step\<close> throws when
  the step does not apply; \<^verbatim>\<open>TextSelection.create(doc, pos)\<close> resolves \<open>pos\<close>.
\<close>

fun tr_exec :: "tr_call \<Rightarrow> transaction \<Rightarrow> error + transaction" where
  "tr_exec (AddMark f t m) tr =
     (let d' = mark_range (addToSet m) f t (tr_doc tr)
      in Inr (if d' = tr_doc tr then tr else record_step (AddMarkStep f t m) d' tr))"
| "tr_exec (RemoveMark f t name) tr =
     (let d' = mark_range (removeFromSet name) f t (tr_doc tr)
      in Inr (if d' = tr_doc tr then tr else record_step (RemoveMarkStep f t name) d' tr))"
| "tr_exec (DeleteRange f t) tr =
     (case replace_tokens (tr_doc tr) f t Slice_empty of
        Inl e \<Rightarrow> Inl e
      | Inr d' \<Rightarrow> Inr (if f = t then tr else record_step (ReplaceStep f t Slice_empty False) d' tr))"
| "tr_exec (TrStep s) tr =
     (case step_apply s (tr_doc tr) of
        Inl e \<Rightarrow> Inl e
      | Inr d' \<Rightarrow> Inr (record_step s d' tr))"
| "tr_exec (SetMeta key v) tr = Inr (tr\<lparr>tr_meta := (key, v) # tr_meta tr\<rparr>)"
| "tr_exec (SetSelection p) tr =
     (if p < 0 \<or> int (length (tr_doc tr)) < p then Inl RangeError
      else Inr (tr\<lparr>tr_selection := (p, p)\<rparr>))"

fun tr_run :: "tr_call list \<Rightarrow> transaction \<Rightarrow> error + transaction" where
  "tr_run [] tr = Inr tr"
| "tr_run (c # cs) tr = (case tr_exec c tr of Inl e \<Rightarrow> Inl e | Inr tr' \<Rightarrow> tr_run cs tr')"

text \<open>
  The editor: the session storage, the state (document and selection), the
  transactions committed through \<^verbatim>\<open>view.updateState(state.apply(tr))\<close>, the commands
  invoked on it and the timers pending. The mapping of the selection through steps is
  not modelled: a transaction carries the selection it was created with until
  \<^verbatim>\<open>setSelection\<close> replaces it.
\<close>

datatype command = CmdDeleteSelection | CmdBlur | CmdFocus

datatype timer = FocusRestore

record editor =
  storage :: TrackChangeStorage
  state_doc :: doc
  state_selection :: "int \<times> int"
  isDestroyed :: bool
  committed :: "transaction list"
  commands_run :: "command list"
  timers :: "(nat \<times> timer) list"

text \<open>\<^verbatim>\<open>editor.state.tr\<close>: a new transaction on the current state.\<close>

definition state_tr :: "editor \<Rightarrow> transaction" where
  "state_tr ed =
     \<lparr>tr_doc = state_doc ed, tr_steps = [], tr_docs = [], tr_meta = [],
      tr_selection = state_selection ed\<rparr>"

text \<open>
  \<^verbatim>\<open>editor.view.updateState(editor.state.apply(tr))\<close>. The host refuses a transaction
  that does not start from the state's document (``Applying a mismatched transaction'',
  a \<^verbatim>\<open>RangeError\<close>).
\<close>

definition apply_transaction :: "transaction \<Rightarrow> editor \<Rightarrow> error + editor" where
  "apply_transaction tr ed =
     (if tr_before tr = state_doc ed
      then Inr (ed\<lparr>state_doc := tr_doc tr, state_selection := tr_selection tr,
                   committed := committed ed @ [tr]\<rparr>)
      else Inl RangeError)"


section \<open>Composition state\<close>

definition IME_STATUS_NORMAL :: nat where
  "IME_STATUS_NORMAL = 0"

definition IME_STATUS_CONTINUE :: nat where
  "IME_STATUS_CONTINUE = 2"

record ime =
  composingStatus :: nat
  isStartChineseInput :: bool

definition compositionstart :: "ime \<Rightarrow> ime" where
  "compositionstart g = g\<lparr>isStartChineseInput := True\<rparr>"

definition compositionupdate :: "ime \<Rightarrow> ime" where
  "compositionupdate g = g\<lparr>composingStatus := IME_STATUS_CONTINUE\<rparr>"

section \<open>The accept/reject resolver\<close>

text \<open>
  \<^verbatim>\<open>isMarkActive\<close>, \<^verbatim>\<open>getMarkRange\<close> and \<^verbatim>\<open>getMarksBetween\<close> are imported from
  \<^verbatim>\<open>@tiptap/core\<close>; \<^verbatim>\<open>changeTrack\<close> takes them as a parameter.
\<close>

record MarkRange =
  mr_mark :: mark
  mr_from :: int
  mr_to :: int

record helpers =
  isMarkActive :: "editor \<Rightarrow> string \<Rightarrow> bool"
  getMarkRange :: "doc \<Rightarrow> int \<Rightarrow> string \<Rightarrow> (int \<times> int) option"
  getMarksBetween :: "int \<Rightarrow> int \<Rightarrow> doc \<Rightarrow> MarkRange list"

text \<open>Lines 124 to 143: the mark ranges in scope and the command they are resolved by.\<close>

definition scope_ranges :: "helpers \<Rightarrow> TRACK_COMMAND_TYPE \<Rightarrow> editor \<Rightarrow> MarkRange list \<times> TRACK_COMMAND_TYPE" where
  "scope_ranges lib opType ed =
     (let sel_from = fst (state_selection ed);
          sel_to = snd (state_selection ed);
          d = state_doc ed
      in if (opType = TRACK_COMMAND_ACCEPT \<or> opType = TRACK_COMMAND_REJECT) \<and> sel_from = sel_to
         then
           (let isInsertBeforeCursor = isMarkActive lib ed MARK_INSERTION;
                isDeleteBeforeCursor = isMarkActive lib ed MARK_DELETION;
                leftRange =
                  (if isInsertBeforeCursor then getMarkRange lib d sel_from MARK_INSERTION
                   else if isDeleteBeforeCursor then getMarkRange lib d sel_from MARK_DELETION
                   else None)
            in (case leftRange of
                  Some (lf, lt) \<Rightarrow> getMarksBetween lib lf lt d
                | None \<Rightarrow> [],
                opType))
         else if opType = TRACK_COMMAND_ACCEPT_ALL \<or> opType = TRACK_COMMAND_REJECT_ALL
         then (getMarksBetween lib 0 (int (length d)) d,
               if opType = TRACK_COMMAND_ACCEPT_ALL then TRACK_COMMAND_ACCEPT else TRACK_COMMAND_REJECT)
         else (getMarksBetween lib sel_from sel_to d, opType))"

definition is_tracked :: "MarkRange \<Rightarrow> bool" where
  "is_tracked markRange =
     (mark_name (mr_mark markRange) = MARK_DELETION \<or> mark_name (mr_mark markRange) = MARK_INSERTION)"

text \<open>
  The body of \<^verbatim>\<open>markRanges.forEach\<close> (lines 153 to 163), on the calls made so far on
  \<^verbatim>\<open>currentTr\<close> and the running \<^verbatim>\<open>offset\<close>.
\<close>

definition resolve_range :: "TRACK_COMMAND_TYPE \<Rightarrow> tr_call list \<times> int \<Rightarrow> MarkRange \<Rightarrow> tr_call list \<times> int" where
  "resolve_range opType acc markRange =
     (let calls = fst acc;
          offset = snd acc;
          isAcceptInsert = (opType = TRACK_COMMAND_ACCEPT \<and> mark_name (mr_mark markRange) = MARK_INSERTION);
          isRejectDelete = (opType = TRACK_COMMAND_REJECT \<and> mark_name (mr_mark markRange) = MARK_DELETION)
      in if isAcceptInsert \<or> isRejectDelete
         then (calls @ [RemoveMark (mr_from markRange - offset) (mr_to markRange - offset) MARK_INSERTION,
                        RemoveMark (mr_from markRange - offset) (mr_to markRange - offset) MARK_DELETION],
               offset)
         else (calls @ [DeleteRange (mr_from markRange - offset) (mr_to markRange - offset)],
               offset + (mr_to markRange - mr_from markRange)))"

definition resolve_ranges :: "TRACK_COMMAND_TYPE \<Rightarrow> MarkRange list \<Rightarrow> tr_call list \<times> int" where
  "resolve_ranges opType markRanges = foldl (resolve_range opType) ([], 0) markRanges"

definition changeTrack :: "helpers \<Rightarrow> TRACK_COMMAND_TYPE \<Rightarrow> editor \<Rightarrow> error + editor" where
  "changeTrack lib opType0 ed =
     (let scope = scope_ranges lib opType0 ed;
          opType = snd scope;
          markRanges = filter is_tracked (fst scope)
      in if markRanges = [] then Inr ed
         else
           (case tr_run (fst (resolve_ranges opType markRanges)) (state_tr ed) of
              Inl e \<Rightarrow> Inl e
            | Inr currentTr \<Rightarrow>
                if tr_steps currentTr \<noteq> []
                then (case tr_run [SetMeta ''trackManualChanged'' (MetaBool True)] currentTr of
                        Inl e \<Rightarrow> Inl e
                      | Inr tagged \<Rightarrow> apply_transaction tagged ed)
                else Inr ed))"

definition acceptChange :: "helpers \<Rightarrow> editor \<Rightarrow> error + editor" where
  "acceptChange lib ed = changeTrack lib TRACK_COMMAND_ACCEPT ed"

definition acceptAllChanges :: "helpers \<Rightarrow> editor \<Rightarrow> error + editor" where
  "acceptAllChanges lib ed = changeTrack lib TRACK_COMMAND_ACCEPT_ALL ed"

definition rejectChange :: "helpers \<Rightarrow> editor \<Rightarrow> error + editor" where
  "rejectChange lib ed = changeTrack lib TRACK_COMMAND_REJECT ed"

definition rejectAllChanges :: "helpers \<Rightarrow> editor \<Rightarrow> error + editor" where
  "rejectAllChanges lib ed = changeTrack lib TRACK_COMMAND_REJECT_ALL ed"

section \<open>The redline transformer\<close>

text \<open>
  \<^verbatim>\<open>markType.create({...})\<close> with the current attribution and the minute timestamp
  (lines 355 to 359 and 406 to 410).
\<close>

definition create_mark :: "string \<Rightarrow> TrackChangeStorage \<Rightarrow> int \<Rightarrow> mark" where
  "create_mark name st now =
     \<lparr>mark_name = name, data_op_user_id = dataOpUserId st,
      data_op_user_nickname = dataOpUserNickname st,
      data_op_date = Some (getMinuteTime now)\<rparr>"

subsection \<open>First pass: deleted length and the composed-edit flag\<close>

text \<open>\<^verbatim>\<open>slice.content.forEach\<close> of lines 323 to 329, on the running \<^verbatim>\<open>delCount\<close>.\<close>

fun count_deleted :: "node list \<Rightarrow> int \<Rightarrow> int" where
  "count_deleted [] delCount = delCount"
| "count_deleted (n # ns) delCount =
     count_deleted ns
       (if has_mark MARK_INSERTION (node_marks n) then delCount else delCount + nodeSize n)"

text \<open>\<^verbatim>\<open>transaction.docs[index]\<close>; using a missing entry throws.\<close>

definition docs_at :: "doc list \<Rightarrow> nat \<Rightarrow> error + doc" where
  "docs_at docs idx = (if idx < length docs then Inr (docs ! idx) else Inl TypeError)"

text \<open>Lines 318 to 330: \<^verbatim>\<open>delCount\<close> of one replace step.\<close>

definition step_delCount :: "doc list \<Rightarrow> nat \<Rightarrow> int \<Rightarrow> int \<Rightarrow> error + int" where
  "step_delCount docs idx f t =
     (if f \<noteq> t
      then (case docs_at docs idx of
              Inl e \<Rightarrow> Inl e
            | Inr d \<Rightarrow>
                (case doc_slice d f t of
                   Inl e \<Rightarrow> Inl e
                 | Inr sl \<Rightarrow> Inr (count_deleted (content sl) 0)))
      else Inr 0)"

text \<open>
  The first \<^verbatim>\<open>allSteps.forEach\<close> (lines 316 to 337), on \<^verbatim>\<open>posOffset\<close> and
  \<^verbatim>\<open>hasAddAndDelete\<close>.
\<close>

fun count_steps :: "doc list \<Rightarrow> nat \<Rightarrow> step list \<Rightarrow> int \<times> bool \<Rightarrow> error + (int \<times> bool)" where
  "count_steps docs idx [] acc = Inr acc"
| "count_steps docs idx (ReplaceStep f t sl structure # rest) (posOffset, hasAddAndDelete) =
     (case step_delCount docs idx f t of
        Inl e \<Rightarrow> Inl e
      | Inr delCount \<Rightarrow>
          count_steps docs (Suc idx) rest
            (posOffset + delCount, hasAddAndDelete \<or> (slice_size sl \<noteq> 0 \<and> delCount \<noteq> 0)))"
| "count_steps docs idx (s # rest) acc = count_steps docs (Suc idx) rest acc"

text \<open>Lines 339 to 345.\<close>

definition suppress_offset :: "bool \<Rightarrow> bool \<Rightarrow> bool \<Rightarrow> bool \<Rightarrow> int \<Rightarrow> int" where
  "suppress_offset isNormalInput isChineseStart isChineseInputting hasAddAndDelete posOffset =
     (if isNormalInput then (if hasAddAndDelete then posOffset else 0)
      else if isChineseStart then (if hasAddAndDelete then posOffset else 0)
      else if isChineseInputting then 0
      else posOffset)"

subsection \<open>Second pass: marking insertions and preserving deletions\<close>

record travel =
  skipSteps :: "step list"
  addedEmptyOffset :: int
  reAddOffset :: int

text \<open>Lines 392 to 396: a node without content that carries the Insertion mark.\<close>

definition skip_inserted :: "node \<Rightarrow> int \<Rightarrow> travel \<Rightarrow> travel" where
  "skip_inserted n start tv =
     (let node_end = start + nodeSize n
      in if has_mark MARK_INSERTION (node_marks n)
         then tv\<lparr>skipSteps := skipSteps tv @
                     [ReplaceStep (start - addedEmptyOffset tv) (node_end - addedEmptyOffset tv)
                        Slice_empty False],
                 addedEmptyOffset := addedEmptyOffset tv + nodeSize n,
                 reAddOffset := reAddOffset tv - nodeSize n\<rparr>
         else tv)"

text \<open>
  \<^verbatim>\<open>travelContent(content, parentOffset)\<close> (lines 383 to 399); the third argument is the
  \<^verbatim>\<open>offset\<close> that \<^verbatim>\<open>content.forEach\<close> hands to its callback, the size of the nodes
  before the current one.
\<close>

fun travelContent :: "node list \<Rightarrow> int \<Rightarrow> int \<Rightarrow> travel \<Rightarrow> travel"
  and travelNode :: "node \<Rightarrow> int \<Rightarrow> travel \<Rightarrow> travel" where
  "travelContent [] parentOffset offset tv = tv"
| "travelContent (n # ns) parentOffset offset tv =
     travelContent ns parentOffset (offset + nodeSize n) (travelNode n (parentOffset + offset) tv)"
| "travelNode (Elem ty ms ns) start tv =
     (if fragment_size ns \<noteq> 0 then travelContent ns start 0 tv
      else skip_inserted (Elem ty ms ns) start tv)"
| "travelNode (Text s ms) start tv = skip_inserted (Text s ms) start tv"
| "travelNode (Leaf ty ms) start tv = skip_inserted (Leaf ty ms) start tv"

text \<open>Lines 354 to 369, the calls for the inserted content of a step.\<close>

definition insertion_calls ::
  "int \<Rightarrow> TrackChangeStorage \<Rightarrow> bool \<Rightarrow> int \<Rightarrow> slice \<Rightarrow> int \<Rightarrow> tr_call list" where
  "insertion_calls now st trackChangeEnabled f sl ro =
     (if slice_size sl \<noteq> 0
      then (let insertionMark = create_mark MARK_INSERTION st now;
                mark_from = f + ro;
                mark_to = f + ro + slice_size sl
            in [if trackChangeEnabled then AddMark mark_from mark_to insertionMark
                else RemoveMark mark_from mark_to MARK_INSERTION,
                RemoveMark mark_from mark_to MARK_DELETION])
      else [])"

text \<open>
  Lines 371 to 413, the calls that preserve a deletion, and the value of
  \<^verbatim>\<open>reAddOffset\<close> after them. The inverted step is given by its \<^verbatim>\<open>from\<close>, \<^verbatim>\<open>to\<close>,
  \<^verbatim>\<open>slice\<close> and \<^verbatim>\<open>structure\<close>.
\<close>

definition deletion_calls ::
  "int \<Rightarrow> TrackChangeStorage \<Rightarrow> int \<times> int \<times> slice \<times> bool \<Rightarrow> int \<Rightarrow> tr_call list \<times> int" where
  "deletion_calls now st invertedStep ro =
     (case invertedStep of (inv_from, inv_to, inv_slice, inv_structure) \<Rightarrow>
        (let reAddStep = ReplaceStep (inv_from + ro) (inv_from + ro) inv_slice inv_structure;
             tv = travelContent (content inv_slice) inv_from 0
                    \<lparr>skipSteps = [], addedEmptyOffset = 0, reAddOffset = ro\<rparr>;
             ro' = reAddOffset tv + slice_size inv_slice;
             mark_from = inv_from + ro;
             mark_to = mark_from + slice_size inv_slice
         in ([TrStep reAddStep, AddMark mark_from mark_to (create_mark MARK_DELETION st now)]
               @ map TrStep (skipSteps tv),
             ro')))"

text \<open>Lines 352 to 414 for one replace step: the calls on \<^verbatim>\<open>newChangeTr\<close> and the new \<^verbatim>\<open>reAddOffset\<close>.\<close>

definition replace_step_calls ::
  "int \<Rightarrow> TrackChangeStorage \<Rightarrow> bool \<Rightarrow> int \<Rightarrow> int \<Rightarrow> slice \<Rightarrow> int \<times> int \<times> slice \<times> bool \<Rightarrow> int
     \<Rightarrow> tr_call list \<times> int" where
  "replace_step_calls now st trackChangeEnabled f t sl invertedStep ro =
     (let calls = insertion_calls now st trackChangeEnabled f sl ro
      in if f \<noteq> t \<and> trackChangeEnabled
         then (let r = deletion_calls now st invertedStep ro in (calls @ fst r, snd r))
         else (calls, ro))"

text \<open>
  The second \<^verbatim>\<open>allSteps.forEach\<close> (lines 350 to 418), on \<^verbatim>\<open>newChangeTr\<close>,
  \<^verbatim>\<open>reAddOffset\<close> and the editor. The one transaction \<^verbatim>\<open>newChangeTr\<close> collects the
  calls of every step and is applied after each replace step.
\<close>

fun track_steps ::
  "int \<Rightarrow> TrackChangeStorage \<Rightarrow> bool \<Rightarrow> doc list \<Rightarrow> nat \<Rightarrow> step list
     \<Rightarrow> transaction \<times> int \<times> editor \<Rightarrow> error + (transaction \<times> int \<times> editor)" where
  "track_steps now st en docs idx [] acc = Inr acc"
| "track_steps now st en docs idx (ReplaceStep f t sl structure # rest) (newChangeTr, ro, ed) =
     (case docs_at docs idx of
        Inl e \<Rightarrow> Inl e
      | Inr d \<Rightarrow>
          (case invert f t sl d of
             Inl e \<Rightarrow> Inl e
           | Inr invertedStep \<Rightarrow>
               (let r = replace_step_calls now st en f t sl invertedStep ro
                in case tr_run (fst r) newChangeTr of
                     Inl e \<Rightarrow> Inl e
                   | Inr tr' \<Rightarrow>
                       (case apply_transaction tr' ed of
                          Inl e \<Rightarrow> Inl e
                        | Inr ed' \<Rightarrow> track_steps now st en docs (Suc idx) rest (tr', snd r, ed')))))"
| "track_steps now st en docs idx (s # rest) acc = track_steps now st en docs (Suc idx) rest acc"

text \<open>Lines 420 to 426: the final selection.\<close>

definition correct_selection :: "bool \<Rightarrow> int \<Rightarrow> editor \<Rightarrow> error + editor" where
  "correct_selection trackChangeEnabled finalNewPos ed =
     (if trackChangeEnabled
      then (case tr_run [SetSelection finalNewPos] (state_tr ed) of
              Inl e \<Rightarrow> Inl e
            | Inr trWithChange \<Rightarrow> apply_transaction trWithChange ed)
      else Inr ed)"

text \<open>Lines 427 to 433: the composition recovery and its deferred focus restore.\<close>

definition composition_recovery :: "bool \<Rightarrow> editor \<Rightarrow> editor" where
  "composition_recovery recover ed =
     (if recover
      then ed\<lparr>commands_run := commands_run ed @ [CmdDeleteSelection, CmdBlur],
              timers := timers ed @ [(100, FocusRestore)]\<rparr>
      else ed)"

text \<open>
  \<^verbatim>\<open>onTransaction\<close>. It reads and resets the two composition signals, then returns at
  the first gate that holds. \<^verbatim>\<open>Step.fromJSON(schema, step.toJSON())\<close> rebuilds each step
  unchanged. The test \<^verbatim>\<open>transaction.before !== editor.state.tr.doc\<close> compares two
  documents by identity; it is read as their being different documents.
\<close>

definition onTransaction :: "int \<Rightarrow> ime \<Rightarrow> editor \<Rightarrow> transaction \<Rightarrow> error + (ime \<times> editor)" where
  "onTransaction now g ed transaction =
     (let st = storage ed;
          isChineseStart = (isStartChineseInput g \<and> composingStatus g = IME_STATUS_CONTINUE);
          isChineseInputting = (\<not> isStartChineseInput g \<and> composingStatus g = IME_STATUS_CONTINUE);
          isNormalInput = (composingStatus g = IME_STATUS_NORMAL);
          g' = g\<lparr>composingStatus := IME_STATUS_NORMAL, isStartChineseInput := False\<rparr>
      in if \<not> docChanged transaction then Inr (g', ed)
         else if truthy (getMeta transaction ''trackManualChanged'') then Inr (g', ed)
         else if truthy (getMeta transaction ''history$'') then Inr (g', ed)
         else if isChangeOrigin (getMeta transaction ''y-sync$'') then Inr (g', ed)
         else if tr_steps transaction = [] then Inr (g', ed)
         else
           (let isThisTrApplied = (tr_before transaction \<noteq> state_doc ed);
                trackChangeEnabled = enabled st;
                allSteps = tr_steps transaction;
                currentNewPos = fst (tr_selection transaction)
            in case count_steps (tr_docs transaction) 0 allSteps (0, False) of
                 Inl e \<Rightarrow> Inl e
               | Inr counted \<Rightarrow>
                   (let hasAddAndDelete = snd counted;
                        posOffset = suppress_offset isNormalInput isChineseStart isChineseInputting
                                      hasAddAndDelete (fst counted);
                        newChangeTr = (if isThisTrApplied then state_tr ed else transaction)
                    in case track_steps now st trackChangeEnabled (tr_docs transaction) 0 allSteps
                              (newChangeTr, 0, ed) of
                         Inl e \<Rightarrow> Inl e
                       | Inr tracked \<Rightarrow>
                           (let finalNewPos = (if trackChangeEnabled then currentNewPos + posOffset
                                               else currentNewPos)
                            in case correct_selection trackChangeEnabled finalNewPos (snd (snd tracked)) of
                                 Inl e \<Rightarrow> Inl e
                               | Inr ed' \<Rightarrow>
                                   Inr (g', composition_recovery
                                              (isChineseStart \<and> hasAddAndDelete \<and> trackChangeEnabled)
                                              ed')))))"

section \<open>The stated behaviour, for comparison\<close>

text \<open>
  The deleted length as the specification words it: the sizes of all leaf nodes of the
  range, at any depth, except the leaves that carry the Insertion mark.
\<close>

fun unmarked_leaf_size :: "node list \<Rightarrow> int" and unmarked_leaf_node :: "node \<Rightarrow> int" where
  "unmarked_leaf_size [] = 0"
| "unmarked_leaf_size (n # ns) = unmarked_leaf_node n + unmarked_leaf_size ns"
| "unmarked_leaf_node (Text s ms) = (if has_mark MARK_INSERTION ms then 0 else int (length s))"
| "unmarked_leaf_node (Leaf ty ms) = (if has_mark MARK_INSERTION ms then 0 else 1)"
| "unmarked_leaf_node (Elem ty ms ns) = unmarked_leaf_size ns"

text \<open>
  The discarded content of an inverted slice: the nodes without content, at any depth,
  that carry the Insertion mark.
\<close>

fun discarded_size :: "node list \<Rightarrow> int" and discarded_node :: "node \<Rightarrow> int" where
  "discarded_size [] = 0"
| "discarded_size (n # ns) = discarded_node n + discarded_size ns"
| "discarded_node (Text s ms) = (if has_mark MARK_INSERTION ms then int (length s) else 0)"
| "discarded_node (Leaf ty ms) = (if has_mark MARK_INSERTION ms then 1 else 0)"
| "discarded_node (Elem ty ms ns) =
     (if fragment_size ns \<noteq> 0 then discarded_size ns
      else if has_mark MARK_INSERTION ms then 2 + fragment_size ns
      else 0)"

fun is_leaf :: "node \<Rightarrow> bool" where
  "is_leaf (Text s ms) = True"
| "is_leaf (Leaf ty ms) = True"
| "is_leaf (Elem ty ms ns) = False"

text \<open>
  The resolver as the specification words it: a range is confirmed (its marks are
  stripped) or discarded (it is removed); \<open>shrink\<close> is the total length of the ranges
  discarded so far.
\<close>

definition confirms :: "TRACK_COMMAND_TYPE \<Rightarrow> MarkRange \<Rightarrow> bool" where
  "confirms kind r =
     (kind = TRACK_COMMAND_ACCEPT \<and> mark_name (mr_mark r) = MARK_INSERTION
      \<or> kind = TRACK_COMMAND_REJECT \<and> mark_name (mr_mark r) = MARK_DELETION)"

fun shrink_after :: "TRACK_COMMAND_TYPE \<Rightarrow> MarkRange list \<Rightarrow> int" where
  "shrink_after kind [] = 0"
| "shrink_after kind (r # rs) =
     (if confirms kind r then 0 else mr_to r - mr_from r) + shrink_after kind rs"

definition range_calls :: "TRACK_COMMAND_TYPE \<Rightarrow> int \<Rightarrow> MarkRange \<Rightarrow> tr_call list" where
  "range_calls kind shrink r =
     (if confirms kind r
      then [RemoveMark (mr_from r - shrink) (mr_to r - shrink) MARK_INSERTION,
            RemoveMark (mr_from r - shrink) (mr_to r - shrink) MARK_DELETION]
      else [DeleteRange (mr_from r - shrink) (mr_to r - shrink)])"

text \<open>
  The same on the document. Stripping a range leaves none of its characters and leaves
  with either mark and changes nothing else; removing a range takes its positions out.
\<close>

definition strip_marks :: "int \<Rightarrow> int \<Rightarrow> doc \<Rightarrow> doc" where
  "strip_marks f t d =
     map (\<lambda>(i, tok).
            if f \<le> int i \<and> int i < t
            then map_token_marks
                   (filter (\<lambda>m. mark_name m \<noteq> MARK_INSERTION \<and> mark_name m \<noteq> MARK_DELETION)) tok
            else tok)
         (enumerate 0 d)"

definition remove_range :: "int \<Rightarrow> int \<Rightarrow> doc \<Rightarrow> doc" where
  "remove_range f t d = take (nat f) d @ drop (nat t) d"

fun resolved_doc :: "TRACK_COMMAND_TYPE \<Rightarrow> int \<Rightarrow> MarkRange list \<Rightarrow> doc \<Rightarrow> doc" where
  "resolved_doc kind shrink [] d = d"
| "resolved_doc kind shrink (r # rs) d =
     (if confirms kind r
      then resolved_doc kind shrink rs (strip_marks (mr_from r - shrink) (mr_to r - shrink) d)
      else resolved_doc kind (shrink + (mr_to r - mr_from r)) rs
             (remove_range (mr_from r - shrink) (mr_to r - shrink) d))"


text \<open>A character or leaf that carries both marks.\<close>

definition carries_both :: "token \<Rightarrow> bool" where
  "carries_both tok =
     (has_mark MARK_INSERTION (token_marks tok) \<and> has_mark MARK_DELETION (token_marks tok))"

text \<open>The calls that only take marks or content away, or tag the transaction.\<close>

fun is_removal :: "tr_call \<Rightarrow> bool" where
  "is_removal (RemoveMark f t name) = True"
| "is_removal (DeleteRange f t) = True"
| "is_removal (SetMeta key v) = True"
| "is_removal c = False"

section \<open>An instance of the helpers\<close>

text \<open>
  The three helpers on documents of marked text, for running the resolver on concrete
  documents: the marks in force at the caret are those of the character before it (of
  the one after it at the start of a node); the range of a mark around a position
  starts from the node after the position if that carries a mark of the type, else
  from the node before it, takes the attributes of that node's first mark, and extends
  over the adjacent nodes that carry a mark of the type with these attributes;
  \<open>text_ranges\<close> lists, for every text node or leaf that meets a range, one mark
  range per mark.
\<close>

definition marks_at :: "doc \<Rightarrow> int \<Rightarrow> mark list" where
  "marks_at d pos =
     (if 0 < pos \<and> pos \<le> int (length d) \<and> \<not> is_open (d ! nat (pos - 1))
      then token_marks (d ! nat (pos - 1))
      else if 0 \<le> pos \<and> pos < int (length d) then token_marks (d ! nat pos)
      else [])"

definition text_isMarkActive :: "editor \<Rightarrow> string \<Rightarrow> bool" where
  "text_isMarkActive ed name = has_mark name (marks_at (state_doc ed) (fst (state_selection ed)))"

fun inline_nodes :: "token list \<Rightarrow> int \<Rightarrow> (int \<times> int \<times> mark list) list" where
  "inline_nodes [] p = []"
| "inline_nodes (TChar c ms # TChar c' ms' # ts) p =
     (if ms = ms'
      then (case inline_nodes (TChar c' ms' # ts) (p + 1) of
              [] \<Rightarrow> [(p, p + 1, ms)]
            | (a, b, m) # rest \<Rightarrow> (p, b, ms) # rest)
      else (p, p + 1, ms) # inline_nodes (TChar c' ms' # ts) (p + 1))"
| "inline_nodes (TChar c ms # ts) p = (p, p + 1, ms) # inline_nodes ts (p + 1)"
| "inline_nodes (TLeaf ty ms # ts) p = (p, p + 1, ms) # inline_nodes ts (p + 1)"
| "inline_nodes (tok # ts) p = inline_nodes ts (p + 1)"

definition mark_attrs :: "mark \<Rightarrow> string \<times> string \<times> int option" where
  "mark_attrs m = (data_op_user_id m, data_op_user_nickname m, data_op_date m)"

definition isMarkInSet :: "mark list \<Rightarrow> string \<Rightarrow> string \<times> string \<times> int option \<Rightarrow> bool" where
  "isMarkInSet ms name attrs = list_ex (\<lambda>m. mark_name m = name \<and> mark_attrs m = attrs) ms"

fun extend_left :: "(int \<times> int \<times> mark list) list \<Rightarrow> (mark list \<Rightarrow> bool) \<Rightarrow> int \<Rightarrow> int" where
  "extend_left [] same p = p"
| "extend_left ((a, b, ms) # before) same p =
     (if b = p \<and> same ms then extend_left before same a else p)"

fun extend_right :: "(int \<times> int \<times> mark list) list \<Rightarrow> (mark list \<Rightarrow> bool) \<Rightarrow> int \<Rightarrow> int" where
  "extend_right [] same p = p"
| "extend_right ((a, b, ms) # after) same p =
     (if a = p \<and> same ms then extend_right after same b else p)"

definition text_getMarkRange :: "doc \<Rightarrow> int \<Rightarrow> string \<Rightarrow> (int \<times> int) option" where
  "text_getMarkRange d pos name =
     (let nodes = inline_nodes d 0;
          node_after = filter (\<lambda>(a, b, ms). a \<le> pos \<and> pos < b) nodes;
          node_before = filter (\<lambda>(a, b, ms). a < pos \<and> pos \<le> b) nodes;
          start = (case node_after of
                     [] \<Rightarrow> node_before
                   | (a, b, ms) # rest \<Rightarrow> if has_mark name ms then node_after else node_before)
      in case start of
           [] \<Rightarrow> None
         | (a, b, ms) # rest \<Rightarrow>
             (case ms of
                [] \<Rightarrow> None
              | m0 # ms0 \<Rightarrow>
                  (let same = (\<lambda>ms'. isMarkInSet ms' name (mark_attrs m0))
                   in if has_mark name ms \<and> same ms
                      then Some (extend_left (rev (filter (\<lambda>(a', b', ms'). b' \<le> a) nodes)) same a,
                                 extend_right (filter (\<lambda>(a', b', ms'). b \<le> a') nodes) same b)
                      else None)))"

definition text_ranges :: "int \<Rightarrow> int \<Rightarrow> doc \<Rightarrow> MarkRange list" where
  "text_ranges f t d =
     concat (map (\<lambda>(a, b, ms). map (\<lambda>m. \<lparr>mr_mark = m, mr_from = a, mr_to = b\<rparr>) ms)
               (filter (\<lambda>(a, b, ms). f < b \<and> a < t) (inline_nodes d 0)))"

definition text_helpers :: helpers where
  "text_helpers =
     \<lparr>isMarkActive = text_isMarkActive, getMarkRange = text_getMarkRange,
      getMarksBetween = text_ranges\<rparr>"

section \<open>Example documents\<close>

definition ann_inserted :: mark where
  "ann_inserted =
     \<lparr>mark_name = MARK_INSERTION, data_op_user_id = ''u1'', data_op_user_nickname = ''Ann'',
      data_op_date = Some 0\<rparr>"

definition ann_deleted :: mark where
  "ann_deleted =
     \<lparr>mark_name = MARK_DELETION, data_op_user_id = ''u1'', data_op_user_nickname = ''Ann'',
      data_op_date = Some 0\<rparr>"

definition bob :: TrackChangeStorage where
  "bob =
     \<lparr>enabled = True, dataOpUserId = ''u2'', dataOpUserNickname = ''Bob'',
      onStatusChange = True, status_calls = []\<rparr>"

text \<open>
  Two paragraphs, \<open>hX\<close> and \<open>c\<close>, where \<open>X\<close> is a pending insertion; and the same
  document after the first paragraph (positions 0 to 4) was deleted.
\<close>

definition two_paragraphs :: doc where
  "two_paragraphs =
     [TOpen ''paragraph'' [], TChar CHR ''h'' [], TChar CHR ''X'' [ann_inserted], TClose,
      TOpen ''paragraph'' [], TChar CHR ''c'' [], TClose]"

definition second_paragraph :: doc where
  "second_paragraph = [TOpen ''paragraph'' [], TChar CHR ''c'' [], TClose]"

definition delete_first_paragraph :: transaction where
  "delete_first_paragraph =
     \<lparr>tr_doc = second_paragraph, tr_steps = [ReplaceStep 0 4 Slice_empty False],
      tr_docs = [two_paragraphs], tr_meta = [], tr_selection = (1, 1)\<rparr>"

definition editor_on :: "TrackChangeStorage \<Rightarrow> doc \<Rightarrow> int \<Rightarrow> editor" where
  "editor_on st d caret =
     \<lparr>storage = st, state_doc = d, state_selection = (caret, caret), isDestroyed = False,
      committed = [], commands_run = [], timers = []\<rparr>"

definition idle :: ime where
  "idle = \<lparr>composingStatus = IME_STATUS_NORMAL, isStartChineseInput = False\<rparr>"

text \<open>
  One paragraph \<open>aXb\<close> with \<open>X\<close> a pending insertion; the same after \<open>aX\<close>
  (positions 1 to 3) was deleted; and after \<open>aX\<close> was replaced by \<open>z\<close>.
\<close>

definition paragraph_aXb :: doc where
  "paragraph_aXb =
     [TOpen ''paragraph'' [], TChar CHR ''a'' [], TChar CHR ''X'' [ann_inserted],
      TChar CHR ''b'' [], TClose]"

definition paragraph_b :: doc where
  "paragraph_b = [TOpen ''paragraph'' [], TChar CHR ''b'' [], TClose]"

definition paragraph_zb :: doc where
  "paragraph_zb = [TOpen ''paragraph'' [], TChar CHR ''z'' [], TChar CHR ''b'' [], TClose]"

definition replace_aX_by_z :: transaction where
  "replace_aX_by_z =
     \<lparr>tr_doc = paragraph_zb,
      tr_steps = [ReplaceStep 1 3 \<lparr>content = [Text ''z'' []], openStart = 0, openEnd = 0\<rparr> False],
      tr_docs = [paragraph_aXb], tr_meta = [], tr_selection = (2, 2)\<rparr>"

text \<open>
  The paragraph \<open>aXb\<close> without marks; and a paragraph \<open>ab\<close> whose \<open>a\<close> carries both
  marks and whose \<open>b\<close> is a pending deletion.
\<close>

definition plain_aXb :: doc where
  "plain_aXb =
     [TOpen ''paragraph'' [], TChar CHR ''a'' [], TChar CHR ''X'' [], TChar CHR ''b'' [], TClose]"

definition both_ab :: doc where
  "both_ab =
     [TOpen ''paragraph'' [], TChar CHR ''a'' [ann_inserted, ann_deleted],
      TChar CHR ''b'' [ann_deleted], TClose]"

text \<open>
  A paragraph \<open>aXb\<close> whose \<open>a\<close> is a pending deletion and whose \<open>X\<close> is a pending
  insertion; and the paragraph \<open>Xb\<close> without marks.
\<close>

definition pending_aXb :: doc where
  "pending_aXb =
     [TOpen ''paragraph'' [], TChar CHR ''a'' [ann_deleted], TChar CHR ''X'' [ann_inserted],
      TChar CHR ''b'' [], TClose]"

definition plain_Xb :: doc where
  "plain_Xb = [TOpen ''paragraph'' [], TChar CHR ''X'' [], TChar CHR ''b'' [], TClose]"

section \<open>Results\<close>

lemma Math_round_div:
  "Math_round (real_of_int n / 1000 / 60) = (n + 30000) div 60000"
proof -
  have "real_of_int n / 1000 / 60 + 1 / 2 = real_of_int (n + 30000) / real_of_int 60000"
    by (simp add: field_simps)
  then have "Math_round (real_of_int n / 1000 / 60) = \<lfloor>real_of_int (n + 30000) / real_of_int 60000\<rfloor>"
    by (simp only: Math_round_def)
  then show ?thesis
    by (simp only: floor_divide_of_int_eq)
qed

lemma getMinuteTime_div: "getMinuteTime now = (now + 30000) div 60000 * 60000"
  unfolding getMinuteTime_def Math_round_div by simp

subsection \<open>Minute timestamps\<close>

text \<open>
  Claim C6, as amended. The timestamp attached as \<^verbatim>\<open>data-op-date\<close> to a newly created
  Insertion or Deletion mark is the current epoch time rounded to the nearest whole
  minute, in milliseconds, a half minute rounding up: it is a multiple of 60000 no more
  than 30000 away from the clock, and may lie in the future.
\<close>

theorem getMinuteTime_nearest_minute:
  "getMinuteTime now = (now + 30000) div 60000 * 60000
   \<and> getMinuteTime now mod 60000 = 0
   \<and> now - 30000 < getMinuteTime now \<and> getMinuteTime now \<le> now + 30000
   \<and> data_op_date (create_mark name st now) = Some (getMinuteTime now)"
proof -
  have e: "getMinuteTime now = (now + 30000) div 60000 * 60000"
    by (rule getMinuteTime_div)
  have s: "(now + 30000) div 60000 * 60000 + (now + 30000) mod 60000 = now + 30000"
    by (rule div_mult_mod_eq)
  have lo: "0 \<le> (now + 30000) mod 60000"
    by (rule pos_mod_sign) simp
  have hi: "(now + 30000) mod 60000 < 60000"
    by (rule pos_mod_bound) simp
  have a: "(now + 30000) div 60000 * 60000 mod 60000 = 0"
    by simp
  have b: "now - 30000 < (now + 30000) div 60000 * 60000"
    using s hi by linarith
  have c: "(now + 30000) div 60000 * 60000 \<le> now + 30000"
    using s lo by linarith
  have d: "data_op_date (create_mark name st now) = Some (getMinuteTime now)"
    by (simp add: create_mark_def)
  show ?thesis
    unfolding e using a b c d e by simp
qed

text \<open>
  Claim C6 as stated fails: 45 seconds after a whole minute the timestamp is the next
  minute, not the minute rounded down.
\<close>

theorem getMinuteTime_rounds_up_counterexample:
  "getMinuteTime 45000 = 60000 \<and> (45000 :: int) div 60000 * 60000 = 0
   \<and> data_op_date (create_mark MARK_INSERTION bob 45000) = Some 60000"
  by (simp add: getMinuteTime_div create_mark_def)

subsection \<open>The status-change callback\<close>

text \<open>
  Claim C9. With a status-change callback configured, \<^verbatim>\<open>onCreate\<close> invokes it with the
  initial enabled value, and every \<^verbatim>\<open>setTrackChangeStatus\<close> and
  \<^verbatim>\<open>toggleTrackChangeStatus\<close> invokes it once more with the resulting value, also when
  \<^verbatim>\<open>setTrackChangeStatus\<close> is given the value that is already current.
\<close>

theorem status_callback_fires_on_every_change:
  assumes "onStatusChange st"
  shows "status_calls (onCreate st) = status_calls st @ [enabled st]
       \<and> status_calls (setTrackChangeStatus b st) = status_calls st @ [b]
       \<and> enabled (setTrackChangeStatus b st) = b
       \<and> status_calls (setTrackChangeStatus (enabled st) st) = status_calls st @ [enabled st]
       \<and> status_calls (toggleTrackChangeStatus st) = status_calls st @ [\<not> enabled st]
       \<and> enabled (toggleTrackChangeStatus st) = (\<not> enabled st)"
  using assms
  by (simp add: onCreate_def setTrackChangeStatus_def toggleTrackChangeStatus_def
      call_onStatusChange_def Let_def)

theorem status_callback_fires_on_every_change_witness:
  "onStatusChange bob
   \<and> status_calls (onCreate bob) = [True]
   \<and> status_calls (setTrackChangeStatus True (onCreate bob)) = [True, True]
   \<and> status_calls (toggleTrackChangeStatus (setTrackChangeStatus True (onCreate bob)))
       = [True, True, False]"
proof -
  have b: "onStatusChange bob" by (simp add: bob_def)
  have c: "onStatusChange (onCreate bob)"
    by (simp add: bob_def onCreate_def call_onStatusChange_def)
  have d: "onStatusChange (setTrackChangeStatus True (onCreate bob))"
    by (simp add: bob_def onCreate_def call_onStatusChange_def setTrackChangeStatus_def)
  have e: "enabled (onCreate bob)"
    by (simp add: bob_def onCreate_def call_onStatusChange_def)
  show ?thesis
    using status_callback_fires_on_every_change [OF b, of True]
      status_callback_fires_on_every_change [OF c, of True]
      status_callback_fires_on_every_change [OF d, of True] b e
    by (simp add: bob_def)
qed

subsection \<open>The interception gate\<close>

text \<open>
  Claim C3. A transaction that changes no document content, or is flagged as a manual
  accept/reject result, or is an undo/redo, or carries the collaboration plugin's
  change-origin flag, or has no steps, passes through: \<^verbatim>\<open>onTransaction\<close> returns with
  the editor exactly as it was (no transaction committed, no mark added), whatever the
  tracking status; only the two composition signals are reset.
\<close>

theorem gated_transaction_passes_through:
  assumes "\<not> docChanged tr \<or> truthy (getMeta tr ''trackManualChanged'')
           \<or> truthy (getMeta tr ''history$'') \<or> isChangeOrigin (getMeta tr ''y-sync$'')
           \<or> tr_steps tr = []"
  shows "onTransaction now g ed tr
         = Inr (g\<lparr>composingStatus := IME_STATUS_NORMAL, isStartChineseInput := False\<rparr>, ed)"
  using assms by (auto simp add: onTransaction_def Let_def)

text \<open>An undo of the deletion of a paragraph, with tracking enabled.\<close>

theorem gated_transaction_passes_through_witness:
  "truthy (getMeta (delete_first_paragraph\<lparr>tr_meta := [(''history$'', MetaObject)]\<rparr>) ''history$'')
   \<and> enabled (storage (editor_on bob second_paragraph 1))
   \<and> onTransaction 0 idle (editor_on bob second_paragraph 1)
        (delete_first_paragraph\<lparr>tr_meta := [(''history$'', MetaObject)]\<rparr>)
      = Inr (idle, editor_on bob second_paragraph 1)"
proof -
  have h: "truthy (getMeta (delete_first_paragraph\<lparr>tr_meta := [(''history$'', MetaObject)]\<rparr>) ''history$'')"
    by (simp add: getMeta_def)
  have "onTransaction 0 idle (editor_on bob second_paragraph 1)
          (delete_first_paragraph\<lparr>tr_meta := [(''history$'', MetaObject)]\<rparr>)
        = Inr (idle\<lparr>composingStatus := IME_STATUS_NORMAL, isStartChineseInput := False\<rparr>,
               editor_on bob second_paragraph 1)"
    using h by (intro gated_transaction_passes_through) simp
  then show ?thesis
    using h by (simp add: idle_def editor_on_def bob_def)
qed

subsection \<open>The resolver\<close>

lemma resolve_range_eq:
  "resolve_range kind (calls, off) r
   = (calls @ range_calls kind off r,
      off + (if confirms kind r then 0 else mr_to r - mr_from r))"
  by (simp add: resolve_range_def range_calls_def confirms_def Let_def)

lemma foldl_resolve_range:
  "foldl (resolve_range kind) (calls, off) rs
   = (calls @ concat (map (\<lambda>i. range_calls kind (off + shrink_after kind (take i rs)) (rs ! i))
                        [0..<length rs]),
      off + shrink_after kind rs)"
proof (induction rs arbitrary: calls off)
  case Nil
  show ?case by simp
next
  case (Cons r rs)
  have u1: "[0..<Suc (length rs)] = 0 # [Suc 0..<Suc (length rs)]"
    by (rule upt_conv_Cons) simp
  have u2: "[Suc 0..<Suc (length rs)] = map Suc [0..<length rs]"
    by (simp only: map_Suc_upt)
  have u: "[0..<length (r # rs)] = 0 # map Suc [0..<length rs]"
    using u1 u2 by simp
  show ?case
    unfolding u by (simp add: resolve_range_eq Cons.IH o_def add.assoc)
qed

lemma has_mark_removeFromSet:
  "has_mark n (removeFromSet name ms) \<Longrightarrow> has_mark n ms"
  by (auto simp add: has_mark_def removeFromSet_def)

lemma has_mark_Nil: "\<not> has_mark n []"
  by (simp add: has_mark_def)

lemma not_has_mark_removeFromSet: "\<not> has_mark name (removeFromSet name ms)"
  by (auto simp add: has_mark_def removeFromSet_def)

lemma replace_tokens_empty:
  "replace_tokens d f t Slice_empty = Inr d' \<Longrightarrow> d' = take (nat f) d @ drop (nat t) d"
  by (auto simp add: replace_tokens_def slice_tokens_def Slice_empty_def slice_size_def
      split: if_splits)

lemma mark_from_nth:
  "i < length d \<Longrightarrow>
   mark_from g f t p d ! i
   = (if f \<le> p + int i \<and> p + int i < t then map_token_marks g (d ! i) else d ! i)"
proof (induction d arbitrary: p i)
  case Nil
  then show ?case by simp
next
  case (Cons tok d)
  show ?case
  proof (cases i)
    case 0
    then show ?thesis by simp
  next
    case (Suc j)
    with Cons.prems have "j < length d" by simp
    from Cons.IH [OF this, of "p + 1"] Suc show ?thesis
      by (simp add: add.assoc)
  qed
qed

lemma length_mark_from: "length (mark_from g f t p d) = length d"
  by (induction d arbitrary: p) simp_all

lemma removeMark_strips:
  assumes "tr_exec (RemoveMark f t name) tr = Inr tr'"
    and "f \<le> int i" and "int i < t" and "i < length (tr_doc tr)"
  shows "\<not> has_mark name (token_marks (tr_doc tr' ! i))"
proof -
  have d: "tr_doc tr' = mark_range (removeFromSet name) f t (tr_doc tr)"
    using assms(1) by (auto simp add: Let_def record_step_def split: if_splits)
  have "\<not> has_mark name (token_marks (map_token_marks (removeFromSet name) (tr_doc tr ! i)))"
    by (cases "tr_doc tr ! i") (simp_all add: not_has_mark_removeFromSet has_mark_Nil)
  then show ?thesis
    using assms(2-4) unfolding d mark_range_def by (simp add: mark_from_nth)
qed

lemma deleteRange_removes:
  assumes "tr_exec (DeleteRange f t) tr = Inr tr'"
  shows "tr_doc tr' = take (nat f) (tr_doc tr) @ drop (nat t) (tr_doc tr)"
proof (cases "replace_tokens (tr_doc tr) f t Slice_empty")
  case (Inl e)
  with assms show ?thesis by simp
next
  case (Inr d')
  have d': "d' = take (nat f) (tr_doc tr) @ drop (nat t) (tr_doc tr)"
    using Inr by (rule replace_tokens_empty)
  show ?thesis
  proof (cases "f = t")
    case True
    with assms Inr d' show ?thesis by simp
  next
    case False
    with assms Inr d' show ?thesis by (auto simp add: record_step_def)
  qed
qed

lemma resolve_ranges_closed_form:
  "resolve_ranges kind rs
   = (concat (map (\<lambda>i. range_calls kind (shrink_after kind (take i rs)) (rs ! i))
                [0..<length rs]),
      shrink_after kind rs)"
  unfolding resolve_ranges_def by (simp add: foldl_resolve_range)

lemma map_token_marks_comp:
  "map_token_marks g (map_token_marks h tok) = map_token_marks (\<lambda>ms. g (h ms)) tok"
  by (cases tok) simp_all

lemma remove_both_filter:
  "removeFromSet MARK_DELETION (removeFromSet MARK_INSERTION ms)
   = filter (\<lambda>m. mark_name m \<noteq> MARK_INSERTION \<and> mark_name m \<noteq> MARK_DELETION) ms"
  by (induction ms) (auto simp add: removeFromSet_def)

lemma strip_marks_mark_range:
  "mark_range (removeFromSet MARK_DELETION) f t (mark_range (removeFromSet MARK_INSERTION) f t d)
   = strip_marks f t d"
proof (rule nth_equalityI)
  show "length (mark_range (removeFromSet MARK_DELETION) f t
                  (mark_range (removeFromSet MARK_INSERTION) f t d))
        = length (strip_marks f t d)"
    by (simp add: mark_range_def strip_marks_def length_mark_from)
next
  fix i
  assume "i < length (mark_range (removeFromSet MARK_DELETION) f t
                        (mark_range (removeFromSet MARK_INSERTION) f t d))"
  then have i: "i < length d"
    by (simp add: mark_range_def length_mark_from)
  have r: "(\<lambda>ms. removeFromSet MARK_DELETION (removeFromSet MARK_INSERTION ms))
           = filter (\<lambda>m. mark_name m \<noteq> MARK_INSERTION \<and> mark_name m \<noteq> MARK_DELETION)"
    by (rule ext) (rule remove_both_filter)
  show "mark_range (removeFromSet MARK_DELETION) f t
          (mark_range (removeFromSet MARK_INSERTION) f t d) ! i
        = strip_marks f t d ! i"
    using i
    by (simp add: mark_range_def strip_marks_def mark_from_nth length_mark_from
        nth_enumerate_eq map_token_marks_comp r)
qed

lemma tr_exec_RemoveMark_doc:
  "tr_exec (RemoveMark f t name) tr = Inr tr'
   \<Longrightarrow> tr_doc tr' = mark_range (removeFromSet name) f t (tr_doc tr)"
  by (auto simp add: Let_def record_step_def split: if_splits)

lemma tr_run_append:
  "tr_run (cs @ cs') tr = (case tr_run cs tr of Inl e \<Rightarrow> Inl e | Inr tr' \<Rightarrow> tr_run cs' tr')"
  by (induction cs arbitrary: tr) (simp_all split: sum.splits)

lemma tr_run_range_calls:
  assumes "tr_run (range_calls kind shrink r) tr = Inr tr'"
  shows "tr_doc tr'
         = (if confirms kind r then strip_marks (mr_from r - shrink) (mr_to r - shrink) (tr_doc tr)
            else remove_range (mr_from r - shrink) (mr_to r - shrink) (tr_doc tr))"
proof (cases "confirms kind r")
  case True
  let ?f = "mr_from r - shrink" and ?t = "mr_to r - shrink"
  from assms True obtain tr1 where
    a: "tr_exec (RemoveMark ?f ?t MARK_INSERTION) tr = Inr tr1" and
    b: "tr_exec (RemoveMark ?f ?t MARK_DELETION) tr1 = Inr tr'"
    by (auto simp add: range_calls_def simp del: tr_exec.simps split: sum.splits)
  show ?thesis
    using True tr_exec_RemoveMark_doc [OF a] tr_exec_RemoveMark_doc [OF b]
    by (simp add: strip_marks_mark_range)
next
  case False
  with assms have "tr_exec (DeleteRange (mr_from r - shrink) (mr_to r - shrink)) tr = Inr tr'"
    by (auto simp add: range_calls_def simp del: tr_exec.simps split: sum.splits)
  from deleteRange_removes [OF this] False show ?thesis
    by (simp add: remove_range_def)
qed

lemma foldl_resolve_range_Cons:
  "fst (foldl (resolve_range kind) (calls, off) (r # rs))
   = fst (foldl (resolve_range kind)
            (calls @ range_calls kind off r,
             off + (if confirms kind r then 0 else mr_to r - mr_from r)) rs)"
  by (simp add: resolve_range_eq)

lemma fst_foldl_resolve_range_append:
  "fst (foldl (resolve_range kind) (calls, off) rs)
   = calls @ fst (foldl (resolve_range kind) ([], off) rs)"
  by (simp add: foldl_resolve_range)

lemma tr_run_resolve_ranges:
  "tr_run (fst (foldl (resolve_range kind) ([], shrink) rs)) tr = Inr tr'
   \<Longrightarrow> tr_doc tr' = resolved_doc kind shrink rs (tr_doc tr)"
proof (induction rs arbitrary: shrink tr)
  case Nil
  then show ?case by simp
next
  case (Cons r rs)
  let ?off = "shrink + (if confirms kind r then 0 else mr_to r - mr_from r)"
  have split: "fst (foldl (resolve_range kind) ([], shrink) (r # rs))
               = range_calls kind shrink r @ fst (foldl (resolve_range kind) ([], ?off) rs)"
    using foldl_resolve_range_Cons [of kind "[]" shrink r rs]
      fst_foldl_resolve_range_append [of kind "range_calls kind shrink r" ?off rs]
    by simp
  from Cons.prems obtain tr1 where
    a: "tr_run (range_calls kind shrink r) tr = Inr tr1" and
    b: "tr_run (fst (foldl (resolve_range kind) ([], ?off) rs)) tr1 = Inr tr'"
    unfolding split tr_run_append by (auto split: sum.splits)
  show ?case
    using tr_run_range_calls [OF a] Cons.IH [OF b] by simp
qed

lemma tr_exec_steps:
  "tr_exec c tr = Inr tr'
   \<Longrightarrow> (tr_steps tr' = tr_steps tr \<and> tr_doc tr' = tr_doc tr)
       \<or> length (tr_steps tr') = Suc (length (tr_steps tr))"
proof (cases c)
  case (DeleteRange f t)
  assume e: "tr_exec c tr = Inr tr'"
  show ?thesis
  proof (cases "f = t")
    case True
    with e DeleteRange show ?thesis by (auto split: sum.splits)
  next
    case False
    with e DeleteRange show ?thesis by (auto simp add: record_step_def split: sum.splits)
  qed
qed (auto simp add: Let_def record_step_def split: if_splits sum.splits)

lemma tr_run_steps_mono:
  "tr_run cs tr = Inr tr' \<Longrightarrow> length (tr_steps tr) \<le> length (tr_steps tr')"
proof (induction cs arbitrary: tr)
  case Nil
  then show ?case by simp
next
  case (Cons c cs)
  from Cons.prems obtain tr1 where a: "tr_exec c tr = Inr tr1" and b: "tr_run cs tr1 = Inr tr'"
    by (auto simp del: tr_exec.simps split: sum.splits)
  from tr_exec_steps [OF a] Cons.IH [OF b] show ?case by auto
qed

lemma tr_run_no_steps:
  "tr_run cs tr = Inr tr' \<Longrightarrow> tr_steps tr' = [] \<Longrightarrow> tr_doc tr' = tr_doc tr"
proof (induction cs arbitrary: tr)
  case Nil
  then show ?case by simp
next
  case (Cons c cs)
  from Cons.prems(1) obtain tr1 where a: "tr_exec c tr = Inr tr1" and b: "tr_run cs tr1 = Inr tr'"
    by (auto simp del: tr_exec.simps split: sum.splits)
  from tr_run_steps_mono [OF b] Cons.prems(2) have "tr_steps tr1 = []" by simp
  with tr_exec_steps [OF a] have "tr_doc tr1 = tr_doc tr" by auto
  with Cons.IH [OF b Cons.prems(2)] show ?case by simp
qed

text \<open>
  Claim C4. Whenever \<^verbatim>\<open>changeTrack\<close> returns, the document of the editor is the
  document it started from with the collected Insertion and Deletion ranges resolved
  from left to right under a running \<open>shrink\<close> that starts at 0: a range that the
  command confirms (Accept of an Insertion, Reject of a Deletion) has both marks
  stripped from \<open>[from - shrink, to - shrink)\<close> and leaves \<open>shrink\<close> as it is; any other
  range has \<open>[from - shrink, to - shrink)\<close> removed from the document and adds
  \<open>to - from\<close> to \<open>shrink\<close>. Either nothing was committed, or one transaction was,
  tagged as a manual change.
\<close>

theorem resolver_resolves_ranges_left_to_right:
  assumes "changeTrack lib opType ed = Inr ed'"
  shows "state_doc ed'
         = resolved_doc (snd (scope_ranges lib opType ed)) 0
             (filter is_tracked (fst (scope_ranges lib opType ed))) (state_doc ed)
       \<and> (ed' = ed
          \<or> committed ed' = committed ed @ [last (committed ed')]
            \<and> truthy (getMeta (last (committed ed')) ''trackManualChanged''))"
proof -
  let ?rs = "filter is_tracked (fst (scope_ranges lib opType ed))"
  let ?kind = "snd (scope_ranges lib opType ed)"
  show ?thesis
  proof (cases "?rs = []")
    case True
    with assms show ?thesis by (simp add: changeTrack_def Let_def)
  next
    case False
    show ?thesis
    proof (cases "tr_run (fst (resolve_ranges ?kind ?rs)) (state_tr ed)")
      case (Inl e)
      with False assms show ?thesis by (simp add: changeTrack_def Let_def)
    next
      case (Inr currentTr)
      have d: "tr_doc currentTr = resolved_doc ?kind 0 ?rs (state_doc ed)"
        using tr_run_resolve_ranges [of ?kind 0 ?rs "state_tr ed" currentTr] Inr
        by (simp add: resolve_ranges_def state_tr_def)
      show ?thesis
      proof (cases "tr_steps currentTr = []")
        case True
        have "tr_doc currentTr = state_doc ed"
          using tr_run_no_steps [OF Inr True] by (simp add: state_tr_def)
        with True False Inr assms d show ?thesis
          by (simp add: changeTrack_def Let_def)
      next
        case steps: False
        with False Inr assms d show ?thesis
          by (auto simp add: changeTrack_def Let_def apply_transaction_def getMeta_def
              split: if_splits)
      qed
    qed
  qed
qed

text \<open>
  Accept-all on \<open>aXb\<close> with \<open>a\<close> a pending deletion and \<open>X\<close> a pending insertion:
  \<open>a\<close> is removed at positions 1 to 2, then \<open>X\<close>, collected at 2 to 3, is stripped
  at 1 to 2.
\<close>

theorem resolver_resolves_ranges_left_to_right_witness:
  "(case acceptAllChanges text_helpers (editor_on bob pending_aXb 1) of
      Inl e \<Rightarrow> False
    | Inr ed' \<Rightarrow>
        state_doc ed' = plain_Xb
        \<and> state_doc ed'
          = resolved_doc TRACK_COMMAND_ACCEPT 0
              [\<lparr>mr_mark = ann_deleted, mr_from = 1, mr_to = 2\<rparr>,
               \<lparr>mr_mark = ann_inserted, mr_from = 2, mr_to = 3\<rparr>] pending_aXb
        \<and> map (\<lambda>tr. tr_meta tr) (committed ed') = [[(''trackManualChanged'', MetaBool True)]])"
proof -
  have run: "(case acceptAllChanges text_helpers (editor_on bob pending_aXb 1) of
      Inl e \<Rightarrow> False
    | Inr ed' \<Rightarrow> state_doc ed' = plain_Xb
        \<and> map (\<lambda>tr. tr_meta tr) (committed ed') = [[(''trackManualChanged'', MetaBool True)]])"
    by code_simp
  have scope: "scope_ranges text_helpers TRACK_COMMAND_ACCEPT_ALL (editor_on bob pending_aXb 1)
        = ([\<lparr>mr_mark = ann_deleted, mr_from = 1, mr_to = 2\<rparr>,
            \<lparr>mr_mark = ann_inserted, mr_from = 2, mr_to = 3\<rparr>], TRACK_COMMAND_ACCEPT)"
    by code_simp
  have tracked: "filter is_tracked [\<lparr>mr_mark = ann_deleted, mr_from = 1, mr_to = 2\<rparr>,
            \<lparr>mr_mark = ann_inserted, mr_from = 2, mr_to = 3\<rparr>]
        = [\<lparr>mr_mark = ann_deleted, mr_from = 1, mr_to = 2\<rparr>,
            \<lparr>mr_mark = ann_inserted, mr_from = 2, mr_to = 3\<rparr>]"
    by code_simp
  have doc: "state_doc (editor_on bob pending_aXb 1) = pending_aXb"
    by (simp add: editor_on_def)
  show ?thesis
  proof (cases "acceptAllChanges text_helpers (editor_on bob pending_aXb 1)")
    case (Inl e)
    with run show ?thesis by simp
  next
    case (Inr ed')
    then have "changeTrack text_helpers TRACK_COMMAND_ACCEPT_ALL (editor_on bob pending_aXb 1) = Inr ed'"
      by (simp add: acceptAllChanges_def)
    from resolver_resolves_ranges_left_to_right [OF this]
    have "state_doc ed'
          = resolved_doc TRACK_COMMAND_ACCEPT 0
              [\<lparr>mr_mark = ann_deleted, mr_from = 1, mr_to = 2\<rparr>,
               \<lparr>mr_mark = ann_inserted, mr_from = 2, mr_to = 3\<rparr>] pending_aXb"
      by (simp only: scope fst_conv snd_conv tracked doc)
    with run Inr show ?thesis
      by (simp only: sum.case)
  qed
qed

text \<open>
  Claim C7. When the scope of a resolver command holds no Insertion or Deletion mark
  range (as after the range was fully accepted), the command, accept in particular, is
  a no-op: nothing is committed and the editor is unchanged.
\<close>

theorem resolver_without_tracked_ranges_is_noop:
  assumes "filter is_tracked (fst (scope_ranges lib opType ed)) = []"
  shows "changeTrack lib opType ed = Inr ed"
  using assms by (simp add: changeTrack_def Let_def)

text \<open>
  Accepting the selection \<open>aXb\<close> with its pending insertion leaves the unmarked
  paragraph; accepting the same selection of the unmarked paragraph changes nothing.
\<close>

theorem resolver_without_tracked_ranges_is_noop_witness:
  "(case acceptChange text_helpers ((editor_on bob paragraph_aXb 1)\<lparr>state_selection := (1, 4)\<rparr>) of
      Inl e \<Rightarrow> False
    | Inr ed \<Rightarrow> state_doc ed = plain_aXb)
   \<and> filter is_tracked (fst (scope_ranges text_helpers TRACK_COMMAND_ACCEPT
         ((editor_on bob plain_aXb 1)\<lparr>state_selection := (1, 4)\<rparr>))) = []
   \<and> acceptChange text_helpers ((editor_on bob plain_aXb 1)\<lparr>state_selection := (1, 4)\<rparr>)
     = Inr ((editor_on bob plain_aXb 1)\<lparr>state_selection := (1, 4)\<rparr>)"
proof -
  have first: "(case acceptChange text_helpers ((editor_on bob paragraph_aXb 1)\<lparr>state_selection := (1, 4)\<rparr>) of
      Inl e \<Rightarrow> False
    | Inr ed \<Rightarrow> state_doc ed = plain_aXb)"
    by code_simp
  have h: "filter is_tracked (fst (scope_ranges text_helpers TRACK_COMMAND_ACCEPT
         ((editor_on bob plain_aXb 1)\<lparr>state_selection := (1, 4)\<rparr>))) = []"
    by code_simp
  show ?thesis
    using first h resolver_without_tracked_ranges_is_noop [OF h]
    by (simp add: acceptChange_def)
qed

text \<open>
  Claim C10. For accept or reject with a collapsed caret, the scope is the range of the
  Insertion mark whenever an Insertion mark is active at the caret, whether or not a
  Deletion mark is active too; the range of the Deletion mark is used only when no
  Insertion mark is active; with neither active the scope is empty.
\<close>

theorem caret_scope_prefers_insertion:
  assumes "opType = TRACK_COMMAND_ACCEPT \<or> opType = TRACK_COMMAND_REJECT"
    and "fst (state_selection ed) = snd (state_selection ed)"
  shows "(isMarkActive lib ed MARK_INSERTION \<longrightarrow>
            fst (scope_ranges lib opType ed)
            = (case getMarkRange lib (state_doc ed) (fst (state_selection ed)) MARK_INSERTION of
                 None \<Rightarrow> []
               | Some (lf, lt) \<Rightarrow> getMarksBetween lib lf lt (state_doc ed)))
       \<and> (\<not> isMarkActive lib ed MARK_INSERTION \<and> isMarkActive lib ed MARK_DELETION \<longrightarrow>
            fst (scope_ranges lib opType ed)
            = (case getMarkRange lib (state_doc ed) (fst (state_selection ed)) MARK_DELETION of
                 None \<Rightarrow> []
               | Some (lf, lt) \<Rightarrow> getMarksBetween lib lf lt (state_doc ed)))
       \<and> (\<not> isMarkActive lib ed MARK_INSERTION \<and> \<not> isMarkActive lib ed MARK_DELETION \<longrightarrow>
            fst (scope_ranges lib opType ed) = [])
       \<and> snd (scope_ranges lib opType ed) = opType"
  using assms by (auto simp add: scope_ranges_def Let_def split: option.splits)

text \<open>
  A caret after a character that carries both marks, the Deletion mark extending one
  character further: reject is scoped to the Insertion mark's range, positions 1 to 2.
\<close>

theorem caret_scope_prefers_insertion_witness:
  "isMarkActive text_helpers (editor_on bob both_ab 2) MARK_INSERTION
   \<and> isMarkActive text_helpers (editor_on bob both_ab 2) MARK_DELETION
   \<and> getMarkRange text_helpers both_ab 2 MARK_INSERTION = Some (1, 2)
   \<and> getMarkRange text_helpers both_ab 2 MARK_DELETION = Some (1, 3)
   \<and> fst (scope_ranges text_helpers TRACK_COMMAND_REJECT (editor_on bob both_ab 2))
     = getMarksBetween text_helpers 1 2 both_ab"
proof -
  have a: "isMarkActive text_helpers (editor_on bob both_ab 2) MARK_INSERTION"
    by code_simp
  have b: "isMarkActive text_helpers (editor_on bob both_ab 2) MARK_DELETION"
    by code_simp
  have c: "getMarkRange text_helpers both_ab 2 MARK_INSERTION = Some (1, 2)"
    by code_simp
  have d: "getMarkRange text_helpers both_ab 2 MARK_DELETION = Some (1, 3)"
    by code_simp
  have e: "state_doc (editor_on bob both_ab 2) = both_ab"
    and f: "state_selection (editor_on bob both_ab 2) = (2, 2)"
    by (simp_all add: editor_on_def)
  have "TRACK_COMMAND_REJECT = TRACK_COMMAND_ACCEPT \<or> TRACK_COMMAND_REJECT = TRACK_COMMAND_REJECT"
    by simp
  moreover have "fst (state_selection (editor_on bob both_ab 2)) = snd (state_selection (editor_on bob both_ab 2))"
    by (simp add: f)
  ultimately show ?thesis
    using caret_scope_prefers_insertion [of TRACK_COMMAND_REJECT "editor_on bob both_ab 2" text_helpers]
      a b c d
    by (simp add: e f)
qed

subsection \<open>The deferred focus restore\<close>







subsection \<open>Deleted length\<close>

lemma count_deleted_leaves:
  "list_all is_leaf ns \<Longrightarrow> count_deleted ns k = k + unmarked_leaf_size ns"
proof (induction ns arbitrary: k)
  case Nil
  show ?case by simp
next
  case (Cons n ns)
  then show ?case by (cases n) simp_all
qed

text \<open>
  Claim C1 fails on the code for a range that holds a node with content. Deleting the
  whole first paragraph \<open>hX\<close> (positions 0 to 4), whose \<open>X\<close> is a pending insertion:
  the slice holds the paragraph, the first pass reads the marks of the paragraph and
  adds its whole size, 4, while the leaves of the range without the Insertion mark have
  size 1. (For a range of leaves only the two agree, as the lemma above shows.)
\<close>

theorem deleted_length_counts_top_level_nodes:
  "doc_slice two_paragraphs 0 4
     = Inr \<lparr>content = [Elem ''paragraph'' [] [Text ''h'' [], Text ''X'' [ann_inserted]]],
            openStart = 0, openEnd = 0\<rparr>
   \<and> step_delCount (tr_docs delete_first_paragraph) 0 0 4 = Inr 4
   \<and> unmarked_leaf_size [Elem ''paragraph'' [] [Text ''h'' [], Text ''X'' [ann_inserted]]] = 1"
  by code_simp

subsection \<open>The running offset of re-added content\<close>

lemma travel_reAddOffset:
  "reAddOffset (travelContent ns parentOffset offset tv) = reAddOffset tv - discarded_size ns"
  "reAddOffset (travelNode n start tv) = reAddOffset tv - discarded_node n"
  by (induction ns parentOffset offset tv and n start tv rule: travelContent_travelNode.induct)
    (simp_all add: skip_inserted_def Let_def)

lemma leaves_size_split:
  "list_all is_leaf ns \<Longrightarrow> fragment_size ns = unmarked_leaf_size ns + discarded_size ns"
proof (induction ns)
  case Nil
  show ?case by simp
next
  case (Cons n ns)
  then show ?case by (cases n) simp_all
qed

text \<open>
  Claim C2, as amended. After the deletion preservation of a replace step with
  \<open>to \<noteq> from\<close> and tracking enabled, \<^verbatim>\<open>reAddOffset\<close> has grown by the size of the
  inverted step's slice (all of which was re-inserted) minus the size of its discarded,
  Insertion-marked content; for a slice of leaves that is the size of the retained
  content alone.
\<close>

theorem reAddOffset_grows_by_net_readded:
  assumes "f \<noteq> t" and "trackChangeEnabled"
  shows "snd (replace_step_calls now st trackChangeEnabled f t sl
                (inv_from, inv_to, inv_slice, inv_structure) ro)
         = ro + slice_size inv_slice - discarded_size (content inv_slice)
       \<and> (list_all is_leaf (content inv_slice) \<and> openStart inv_slice = 0 \<and> openEnd inv_slice = 0
            \<longrightarrow> snd (replace_step_calls now st trackChangeEnabled f t sl
                        (inv_from, inv_to, inv_slice, inv_structure) ro)
                 = ro + unmarked_leaf_size (content inv_slice))"
proof -
  have main: "snd (replace_step_calls now st trackChangeEnabled f t sl
                (inv_from, inv_to, inv_slice, inv_structure) ro)
         = ro + slice_size inv_slice - discarded_size (content inv_slice)"
    using assms
    by (simp add: replace_step_calls_def deletion_calls_def Let_def travel_reAddOffset)
  show ?thesis
    using main by (auto simp add: slice_size_def leaves_size_split)
qed

text \<open>Deleting \<open>aX\<close> from the paragraph \<open>aXb\<close>: the offset grows by 2 - 1.\<close>

theorem reAddOffset_grows_by_net_readded_witness:
  "(1 :: int) \<noteq> 3
   \<and> invert 1 3 Slice_empty paragraph_aXb
     = Inr (1, 1, \<lparr>content = [Text ''a'' [], Text ''X'' [ann_inserted]], openStart = 0, openEnd = 0\<rparr>, False)
   \<and> snd (replace_step_calls 0 bob True 1 3 Slice_empty
            (1, 1, \<lparr>content = [Text ''a'' [], Text ''X'' [ann_inserted]], openStart = 0, openEnd = 0\<rparr>, False) 0)
     = 0 + 2 - 1"
proof -
  have i: "invert 1 3 Slice_empty paragraph_aXb
     = Inr (1, 1, \<lparr>content = [Text ''a'' [], Text ''X'' [ann_inserted]], openStart = 0, openEnd = 0\<rparr>, False)"
    by code_simp
  have s: "slice_size \<lparr>content = [Text ''a'' [], Text ''X'' [ann_inserted]], openStart = 0, openEnd = 0\<rparr> = 2"
    by code_simp
  have d: "discarded_size [Text ''a'' [], Text ''X'' [ann_inserted]] = 1"
    by code_simp
  have n: "(1 :: int) \<noteq> 3" by simp
  show ?thesis
    using i s d reAddOffset_grows_by_net_readded [OF n, of True 0 bob Slice_empty 1 1
        "\<lparr>content = [Text ''a'' [], Text ''X'' [ann_inserted]], openStart = 0, openEnd = 0\<rparr>" False 0]
    by simp
qed

text \<open>
  Claim C2 as stated fails: in the same deletion the retained content \<open>a\<close> and the
  discarded content \<open>X\<close> both have size 1, so retained minus discarded is 0, while
  \<^verbatim>\<open>reAddOffset\<close> grows by 1.
\<close>

theorem reAddOffset_not_retained_minus_discarded_counterexample:
  "invert 1 3 Slice_empty paragraph_aXb
     = Inr (1, 1, \<lparr>content = [Text ''a'' [], Text ''X'' [ann_inserted]], openStart = 0, openEnd = 0\<rparr>, False)
   \<and> snd (replace_step_calls 0 bob True 1 3 Slice_empty
            (1, 1, \<lparr>content = [Text ''a'' [], Text ''X'' [ann_inserted]], openStart = 0, openEnd = 0\<rparr>, False) 0)
     = 1
   \<and> unmarked_leaf_size [Text ''a'' [], Text ''X'' [ann_inserted]]
       - discarded_size [Text ''a'' [], Text ''X'' [ann_inserted]] = 0"
  by code_simp

subsection \<open>Characters with both marks\<close>

text \<open>
  The resolver keeps the two marks apart: its calls only remove marks and content. So
  does the transformer on a replacement inside one text block, as in the composed edit
  of \<open>aX\<close> by \<open>z\<close>.
\<close>

lemma carries_both_removeFromSet:
  "carries_both (map_token_marks (removeFromSet name) tok) \<Longrightarrow> carries_both tok"
  by (cases tok) (auto simp add: carries_both_def dest: has_mark_removeFromSet)

lemma mark_from_remove_keeps_apart:
  "\<not> list_ex carries_both d
   \<Longrightarrow> \<not> list_ex carries_both (mark_from (removeFromSet name) f t p d)"
  by (induction d arbitrary: p) (auto dest: carries_both_removeFromSet)

lemma take_drop_keeps_apart:
  "\<not> list_ex carries_both d \<Longrightarrow> \<not> list_ex carries_both (take m d @ drop n d)"
  by (auto simp add: list_ex_iff dest: in_set_takeD in_set_dropD)

lemma tr_exec_removal_keeps_apart:
  assumes "is_removal c" and "tr_exec c tr = Inr tr'" and "\<not> list_ex carries_both (tr_doc tr)"
  shows "\<not> list_ex carries_both (tr_doc tr')"
proof (cases c)
  case (RemoveMark f t name)
  with assms show ?thesis
    by (auto simp add: Let_def mark_range_def record_step_def
        dest: mark_from_remove_keeps_apart split: if_splits)
next
  case (DeleteRange f t)
  with assms show ?thesis
    by (auto simp add: record_step_def dest!: replace_tokens_empty
        dest: take_drop_keeps_apart split: sum.splits if_splits)
next
  case (SetMeta key v)
  with assms show ?thesis by auto
qed (use assms in simp_all)

lemma tr_run_removal_keeps_apart:
  "list_all is_removal cs \<Longrightarrow> tr_run cs tr = Inr tr'
   \<Longrightarrow> \<not> list_ex carries_both (tr_doc tr) \<Longrightarrow> \<not> list_ex carries_both (tr_doc tr')"
proof (induction cs arbitrary: tr)
  case Nil
  then show ?case by simp
next
  case (Cons c cs)
  then show ?case
    by (auto split: sum.splits dest: tr_exec_removal_keeps_apart)
qed

lemma resolve_ranges_removal: "list_all is_removal (fst (resolve_ranges kind rs))"
  by (auto simp add: resolve_ranges_def foldl_resolve_range list_all_iff range_calls_def
      split: if_splits)

lemma changeTrack_keeps_marks_apart:
  assumes "changeTrack lib opType ed = Inr ed'" and "\<not> list_ex carries_both (state_doc ed)"
  shows "\<not> list_ex carries_both (state_doc ed')"
proof -
  let ?rs = "filter is_tracked (fst (scope_ranges lib opType ed))"
  let ?kind = "snd (scope_ranges lib opType ed)"
  show ?thesis
  proof (cases "?rs = []")
    case True
    with assms show ?thesis by (simp add: changeTrack_def Let_def)
  next
    case False
    show ?thesis
    proof (cases "tr_run (fst (resolve_ranges ?kind ?rs)) (state_tr ed)")
      case (Inl e)
      with False assms show ?thesis by (simp add: changeTrack_def Let_def)
    next
      case (Inr currentTr)
      have apart: "\<not> list_ex carries_both (tr_doc currentTr)"
        using tr_run_removal_keeps_apart [OF resolve_ranges_removal Inr] assms(2)
        by (simp add: state_tr_def)
      show ?thesis
        using False Inr assms apart
        by (auto simp add: changeTrack_def Let_def apply_transaction_def split: if_splits)
    qed
  qed
qed

lemma flat_replacement_keeps_marks_apart:
  "(case onTransaction 0 idle (editor_on bob paragraph_zb 2) replace_aX_by_z of
      Inl e \<Rightarrow> False
    | Inr r \<Rightarrow>
        state_doc (snd r)
          = [TOpen ''paragraph'' [], TChar CHR ''a'' [create_mark MARK_DELETION bob 0],
             TChar CHR ''z'' [create_mark MARK_INSERTION bob 0], TChar CHR ''b'' [], TClose]
        \<and> \<not> list_ex carries_both (state_doc (snd r)))"
  by code_simp

text \<open>
  Claim C5 fails on the code. With tracking enabled, the whole first paragraph \<open>hX\<close>
  is deleted, \<open>X\<close> being a pending insertion; neither the document before nor the
  document after the deletion has a character with both marks. The transformer puts
  the paragraph back, marks all of it as deleted, and removes positions 1 to 2 as the
  pending insertion; but \<open>X\<close> stands at positions 2 to 3, so the committed \<open>h\<close> is
  removed and \<open>X\<close> stays, carrying both marks.
\<close>

theorem nested_pending_insertion_keeps_both_marks:
  "\<not> list_ex carries_both two_paragraphs
   \<and> \<not> list_ex carries_both second_paragraph
   \<and> (case onTransaction 0 idle (editor_on bob second_paragraph 1) delete_first_paragraph of
        Inl e \<Rightarrow> False
      | Inr r \<Rightarrow>
          state_doc (snd r)
            = [TOpen ''paragraph'' [],
               TChar CHR ''X'' [ann_inserted, create_mark MARK_DELETION bob 0], TClose,
               TOpen ''paragraph'' [], TChar CHR ''c'' [], TClose]
          \<and> list_ex carries_both (state_doc (snd r)))"
  by code_simp

end
